theory Spec2Isabelle
  imports Main "HOL-Library.Multiset"
begin

section \<open>JavaScript values as the program sees them\<close>

text \<open>
  The program reads parsed JSON bodies (\<^verbatim>\<open>response.json()\<close>, typed \<^verbatim>\<open>any\<close>). A parsed
  body is a \<open>json\<close> value; numbers are restricted to the integers. A JavaScript value that
  may also be \<^verbatim>\<open>undefined\<close> (a property that is missing) is a \<open>jsval\<close>: \<open>None\<close> is
  \<^verbatim>\<open>undefined\<close>. An object is the list of its own properties.
\<close>

datatype json =
    JNull
  | JBool bool
  | JNum int
  | JStr string
  | JArr "json list"
  | JObj "(string \<times> json) list"

type_synonym jsval = "json option"

text \<open>Every \<^verbatim>\<open>throw\<close> and every rejected promise of the program is a value of \<open>error\<close>.\<close>

datatype error =
    UserNotFound   \<comment> \<open>the \<^verbatim>\<open>Error\<close> thrown by \<^verbatim>\<open>githubEmail\<close>\<close>
  | TypeError      \<comment> \<open>reading or destructuring a property of \<^verbatim>\<open>null\<close>\<close>
  | SyntaxError    \<comment> \<open>\<^verbatim>\<open>response.json()\<close> on a body that is not JSON\<close>
  | NetworkError   \<comment> \<open>\<^verbatim>\<open>fetch\<close> rejected\<close>

definition bindE :: "error + 'a \<Rightarrow> ('a \<Rightarrow> error + 'b) \<Rightarrow> error + 'b" where
  "bindE m f = (case m of Inl e \<Rightarrow> Inl e | Inr a \<Rightarrow> f a)"

text \<open>JavaScript's ToBoolean, as used by \<^verbatim>\<open>!x\<close>, \<^verbatim>\<open>x && y\<close> and \<^verbatim>\<open>x || y\<close>.\<close>

fun truthy :: "jsval \<Rightarrow> bool" where
  "truthy None = False"
| "truthy (Some JNull) = False"
| "truthy (Some (JBool b)) = b"
| "truthy (Some (JNum n)) = (n \<noteq> 0)"
| "truthy (Some (JStr s)) = (s \<noteq> [])"
| "truthy (Some (JArr xs)) = True"
| "truthy (Some (JObj kvs)) = True"

text \<open>
  Reading a property \<^verbatim>\<open>v.k\<close>, for the property names this program reads (\<^verbatim>\<open>login\<close>,
  \<^verbatim>\<open>email\<close>, \<^verbatim>\<open>name\<close>, \<^verbatim>\<open>date\<close>, \<^verbatim>\<open>commit\<close>, \<^verbatim>\<open>author\<close>, \<^verbatim>\<open>committer\<close>), none of which is
  inherited from a prototype: \<^verbatim>\<open>null\<close> throws, an object yields its own property or
  \<^verbatim>\<open>undefined\<close>, every other value yields \<^verbatim>\<open>undefined\<close>.
\<close>

fun getProp :: "json \<Rightarrow> string \<Rightarrow> error + jsval" where
  "getProp JNull k = Inl TypeError"
| "getProp (JObj kvs) k = Inr (map_of kvs k)"
| "getProp (JBool b) k = Inr None"
| "getProp (JNum n) k = Inr None"
| "getProp (JStr s) k = Inr None"
| "getProp (JArr xs) k = Inr None"

text \<open>
  A destructuring with a default, \<^verbatim>\<open>const { k = {} } = v\<close>: the default replaces
  \<^verbatim>\<open>undefined\<close> only, so a property that is \<^verbatim>\<open>null\<close> stays \<^verbatim>\<open>null\<close>.
\<close>

definition propOr :: "json \<Rightarrow> string \<Rightarrow> json \<Rightarrow> error + json" where
  "propOr v k dflt =
     bindE (getProp v k) (\<lambda>p. case p of None \<Rightarrow> Inr dflt | Some x \<Rightarrow> Inr x)"

section \<open>Dates\<close>

text \<open>
  A \<^verbatim>\<open>Date\<close> is its time value: \<open>Some ms\<close> (milliseconds since the epoch) or \<open>None\<close> for an
  Invalid Date (time value NaN). \<^verbatim>\<open>new Date(v)\<close> is written out for \<^verbatim>\<open>undefined\<close>,
  \<^verbatim>\<open>null\<close>, booleans and numbers; for a string, an array or an object the platform parses
  the value's string form, which is the parameter \<open>parse\<close>.
\<close>

type_synonym time = "int option"

definition newDate :: "(json \<Rightarrow> time) \<Rightarrow> jsval \<Rightarrow> time" where
  "newDate parse v =
     (case v of
        None \<Rightarrow> None
      | Some JNull \<Rightarrow> Some 0
      | Some (JBool b) \<Rightarrow> Some (if b then 1 else 0)
      | Some (JNum n) \<Rightarrow> (if \<bar>n\<bar> \<le> 8640000000000000 then Some n else None)
      | Some j \<Rightarrow> parse j)"

text \<open>\<^verbatim>\<open>a > b\<close> on two dates compares the time values; with NaN on either side it is false.\<close>

definition dateGreater :: "time \<Rightarrow> time \<Rightarrow> bool" where
  "dateGreater a b = (case (a, b) of (Some x, Some y) \<Rightarrow> y < x | _ \<Rightarrow> False)"

section \<open>The insertion-ordered Map of the commit aggregation\<close>

record entry =
  name :: jsval
  email :: jsval
  date :: time

text \<open>
  A \<^verbatim>\<open>Map\<close> is the list of its entries in insertion order. Keys are compared by
  SameValueZero: primitives by value, arrays and objects by reference. Every array or
  object that reaches the map is a distinct node of the parsed body, tested once and
  inserted once, so two of them are never the same key.
\<close>

fun sameValueZero :: "json \<Rightarrow> json \<Rightarrow> bool" where
  "sameValueZero JNull JNull = True"
| "sameValueZero (JBool a) (JBool b) = (a = b)"
| "sameValueZero (JNum a) (JNum b) = (a = b)"
| "sameValueZero (JStr a) (JStr b) = (a = b)"
| "sameValueZero _ _ = False"

type_synonym emap = "(json \<times> entry) list"

definition mapHas :: "emap \<Rightarrow> json \<Rightarrow> bool" where
  "mapHas m k = list_ex (\<lambda>(k', v). sameValueZero k' k) m"

fun mapSet :: "emap \<Rightarrow> json \<Rightarrow> entry \<Rightarrow> emap" where
  "mapSet [] k v = [(k, v)]"
| "mapSet ((k', v') # m) k v =
     (if sameValueZero k' k then (k', v) # m else (k', v') # mapSet m k v)"

definition mapValues :: "emap \<Rightarrow> entry list" where
  "mapValues m = map snd m"

section \<open>getRecentCommitsEmails: the reduce over the commits\<close>

text \<open>
  The property reads of the callback (\<^verbatim>\<open>const { commit = {} } = commitJson\<close> and the three
  destructurings after it), in the source's order. The result is the author's and the
  committer's \<^verbatim>\<open>name\<close>, \<^verbatim>\<open>email\<close> and \<^verbatim>\<open>date\<close> values.
\<close>

definition readIdentity :: "json \<Rightarrow> error + (jsval \<times> jsval \<times> jsval)" where
  "readIdentity who =
     bindE (getProp who ''name'') (\<lambda>n.
     bindE (getProp who ''email'') (\<lambda>e.
     bindE (getProp who ''date'') (\<lambda>d. Inr (n, e, d))))"

definition destructureCommit ::
  "json \<Rightarrow> error + ((jsval \<times> jsval \<times> jsval) \<times> (jsval \<times> jsval \<times> jsval))" where
  "destructureCommit commitJson =
     bindE (propOr commitJson ''commit'' (JObj [])) (\<lambda>commit.
     bindE (propOr commit ''author'' (JObj [])) (\<lambda>author.
     bindE (propOr commit ''committer'' (JObj [])) (\<lambda>committer.
     bindE (readIdentity author) (\<lambda>a.
     bindE (readIdentity committer) (\<lambda>c. Inr (a, c))))))"

text \<open>The callback of \<^verbatim>\<open>json.reduce\<close>: the author first, then the committer.\<close>

definition commitsReducer :: "(json \<Rightarrow> time) \<Rightarrow> emap \<Rightarrow> json \<Rightarrow> error + emap" where
  "commitsReducer parse acc commitJson =
     bindE (destructureCommit commitJson)
       (\<lambda>((authorName, authorEmail, authorDate), (committerName, committerEmail, committerDate)).
          let acc1 =
                (if truthy authorName \<and> \<not> mapHas acc (the authorName)
                 then mapSet acc (the authorName)
                        \<lparr>name = authorName, email = authorEmail,
                         date = newDate parse authorDate\<rparr>
                 else acc);
              acc2 =
                (if truthy committerName \<and> \<not> mapHas acc1 (the committerName)
                 then mapSet acc1 (the committerName)
                        \<lparr>name = committerName, email = committerEmail,
                         date = newDate parse committerDate\<rparr>
                 else acc1)
          in Inr acc2)"

text \<open>\<^verbatim>\<open>Array.prototype.reduce\<close> with a callback that may throw.\<close>

fun reduceE :: "('b \<Rightarrow> 'a \<Rightarrow> error + 'b) \<Rightarrow> 'a list \<Rightarrow> 'b \<Rightarrow> error + 'b" where
  "reduceE f [] acc = Inr acc"
| "reduceE f (x # xs) acc = bindE (f acc x) (reduceE f xs)"

definition commitsEmailsMap :: "(json \<Rightarrow> time) \<Rightarrow> json list \<Rightarrow> error + emap" where
  "commitsEmailsMap parse commits = reduceE (commitsReducer parse) commits []"

section \<open>getRecentCommitsEmails: sort and strip\<close>

text \<open>The comparator \<^verbatim>\<open>(a, b) => a.date > b.date ? -1 : 1\<close>.\<close>

definition compareDates :: "entry \<Rightarrow> entry \<Rightarrow> int" where
  "compareDates a b = (if dateGreater (date a) (date b) then - 1 else 1)"

text \<open>
  \<^verbatim>\<open>Array.prototype.sort\<close> is the platform's; the model is what V8 does on an array of
  fewer than 64 elements (a page of commits has 30 entries, so there are at most 60
  identities): it finds the run at the start of the array, reverses it when it is
  descending, and then inserts every later element in the sorted part at the position a
  binary search gives. On longer arrays V8 sorts runs of at least 32 elements in this way
  and merges them.

  \<open>takeRun\<close> is the loop of V8's \<^verbatim>\<open>CountAndMakeRun\<close>: it compares each element with the
  one before it, element first, and stops at the first that does not continue the run.
  \<open>countAndMakeRun\<close> returns the run, reversed when descending, and the rest of the array.
\<close>

fun takeRun ::
  "('a \<Rightarrow> 'a \<Rightarrow> int) \<Rightarrow> bool \<Rightarrow> 'a \<Rightarrow> 'a list \<Rightarrow> 'a list \<times> 'a list" where
  "takeRun cmp isDescending previousElement [] = ([], [])"
| "takeRun cmp isDescending previousElement (currentElement # rest) =
     (let order = cmp currentElement previousElement
      in if (if isDescending then 0 \<le> order else order < 0)
         then ([], currentElement # rest)
         else (let (run, rest') = takeRun cmp isDescending currentElement rest
               in (currentElement # run, rest')))"

fun countAndMakeRun :: "('a \<Rightarrow> 'a \<Rightarrow> int) \<Rightarrow> 'a list \<Rightarrow> 'a list \<times> 'a list" where
  "countAndMakeRun cmp [] = ([], [])"
| "countAndMakeRun cmp [x] = ([x], [])"
| "countAndMakeRun cmp (elementHigh # elementLow # rest) =
     (let order = cmp elementLow elementHigh;
          isDescending = order < 0;
          (run, rest') = takeRun cmp isDescending elementLow rest
      in (if isDescending then rev (elementHigh # elementLow # run)
          else elementHigh # elementLow # run,
          rest'))"

text \<open>
  The search of V8's \<^verbatim>\<open>BinaryInsertionSort\<close>: the pivot is the first argument of the
  comparator, and it goes to the left of the middle element when it compares less.
\<close>

function binarySearch :: "('a \<Rightarrow> 'a \<Rightarrow> int) \<Rightarrow> 'a \<Rightarrow> 'a list \<Rightarrow> nat \<Rightarrow> nat \<Rightarrow> nat" where
  "binarySearch cmp pivot work left right =
     (if left < right
      then (let mid = left + (right - left) div 2
            in if cmp pivot (work ! mid) < 0
               then binarySearch cmp pivot work left mid
               else binarySearch cmp pivot work (mid + 1) right)
      else left)"
  by pat_completeness auto
termination
  by (relation "measure (\<lambda>(cmp, pivot, work, left, right). right - left)") auto

declare binarySearch.simps [simp del]

definition insertPivot :: "('a \<Rightarrow> 'a \<Rightarrow> int) \<Rightarrow> 'a list \<Rightarrow> 'a \<Rightarrow> 'a list" where
  "insertPivot cmp work pivot =
     (let left = binarySearch cmp pivot work 0 (length work)
      in take left work @ pivot # drop left work)"

definition arraySort :: "('a \<Rightarrow> 'a \<Rightarrow> int) \<Rightarrow> 'a list \<Rightarrow> 'a list" where
  "arraySort cmp xs =
     (let (run, rest) = countAndMakeRun cmp xs
      in foldl (insertPivot cmp) run rest)"

record pair =
  pname :: jsval
  pemail :: jsval

definition strip :: "entry \<Rightarrow> pair" where
  "strip e = \<lparr>pname = name e, pemail = email e\<rparr>"

definition sortedEntries :: "emap \<Rightarrow> entry list" where
  "sortedEntries m = arraySort compareDates (mapValues m)"

definition recentCommitsResult :: "emap \<Rightarrow> pair list" where
  "recentCommitsResult m = map strip (sortedEntries m)"

section \<open>The HTTP collaborator\<close>

text \<open>
  A request is the endpoint with the values interpolated into its URL, and the headers.
  The network is a function from requests to responses; \<open>None\<close> is a \<^verbatim>\<open>fetch\<close> that rejects.
  A response carries its status, its body as text (\<^verbatim>\<open>response.text()\<close>) and its body as
  parsed JSON (\<^verbatim>\<open>response.json()\<close>, \<open>None\<close> when the body does not parse and the promise
  rejects).
\<close>

datatype endpoint =
    UserById int            \<comment> \<open>\<^verbatim>\<open>https://api.github.com/user/${opts.id}\<close>\<close>
  | UserByName jsval        \<comment> \<open>\<^verbatim>\<open>https://api.github.com/users/${username}\<close>\<close>
  | NpmUser jsval           \<comment> \<open>\<^verbatim>\<open>https://r.cnpmjs.org/-/user/org.couchdb.user:${username}\<close>\<close>
  | UserEvents jsval        \<comment> \<open>\<^verbatim>\<open>https://api.github.com/users/${username}/events\<close>\<close>
  | UserRepos jsval         \<comment> \<open>\<^verbatim>\<open>https://api.github.com/users/${username}/repos?type=owner&sort=pushed\<close>\<close>
  | RepoCommits jsval jsval \<comment> \<open>\<^verbatim>\<open>https://api.github.com/repos/${username}/${repository}/commits\<close>\<close>

record request =
  url :: endpoint
  headers :: "(string \<times> string) list"

record response =
  status :: nat
  body_text :: string
  body_json :: "json option"

type_synonym net = "request \<Rightarrow> response option"

text \<open>
  An \<^verbatim>\<open>async\<close> function is its outcome (the value it resolves to, or the error it rejects
  with) together with the requests it issued, in order.
\<close>

type_synonym 'a io = "(error + 'a) \<times> request list"

definition ret :: "'a \<Rightarrow> 'a io" where
  "ret a = (Inr a, [])"

definition throw :: "error \<Rightarrow> 'a io" where
  "throw e = (Inl e, [])"

definition bindIO :: "'a io \<Rightarrow> ('a \<Rightarrow> 'b io) \<Rightarrow> 'b io" where
  "bindIO m f =
     (case m of
        (Inl e, log) \<Rightarrow> (Inl e, log)
      | (Inr a, log) \<Rightarrow> (case f a of (r, log') \<Rightarrow> (r, log @ log')))"

definition liftE :: "error + 'a \<Rightarrow> 'a io" where
  "liftE r = (r, [])"

definition fetch :: "net \<Rightarrow> request \<Rightarrow> response io" where
  "fetch net rq =
     (case net rq of None \<Rightarrow> (Inl NetworkError, [rq]) | Some r \<Rightarrow> (Inr r, [rq]))"

definition responseJson :: "response \<Rightarrow> json io" where
  "responseJson r = (case body_json r of None \<Rightarrow> throw SyntaxError | Some j \<Rightarrow> ret j)"

section \<open>Options and result\<close>

datatype user_key = Username string | Id int

record GitHubEmailOpts =
  user :: user_key
  token :: "string option"
  repository :: "string option"

record GitHubEmailResult =
  github :: jsval
  npm :: jsval
  recentCommits :: "pair list"
  recentActivity :: "string list"

text \<open>An optional string option as a JavaScript value.\<close>

definition optStr :: "string option \<Rightarrow> jsval" where
  "optStr s = map_option JStr s"

definition getGitHubAPIHeaders :: "string option \<Rightarrow> (string \<times> string) list" where
  "getGitHubAPIHeaders tok =
     (if truthy (optStr tok) then [(''Authorization'', ''token '' @ the tok)] else [])
     @ [(''Accept'', ''application/vnd.github.v3+json'')]"

section \<open>getUsername, getGitHubEmail, getNpmEmail\<close>

definition getUsername :: "net \<Rightarrow> GitHubEmailOpts \<Rightarrow> jsval io" where
  "getUsername net opts =
     (case user opts of
        Username u \<Rightarrow> ret (Some (JStr u))
      | Id i \<Rightarrow>
          bindIO (fetch net \<lparr>url = UserById i, headers = getGitHubAPIHeaders (token opts)\<rparr>)
            (\<lambda>response.
               if status response = 404 then ret (Some JNull)
               else bindIO (responseJson response) (\<lambda>json. liftE (getProp json ''login''))))"

text \<open>\<^verbatim>\<open>json.email || null\<close>\<close>

definition emailOrNull :: "json \<Rightarrow> error + jsval" where
  "emailOrNull json =
     bindE (getProp json ''email'') (\<lambda>e. Inr (if truthy e then e else Some JNull))"

definition getGitHubEmail :: "net \<Rightarrow> jsval \<Rightarrow> GitHubEmailOpts \<Rightarrow> jsval io" where
  "getGitHubEmail net username opts =
     (if \<not> truthy (optStr (token opts)) then ret (Some JNull)
      else
        bindIO (fetch net \<lparr>url = UserByName username,
                            headers = getGitHubAPIHeaders (token opts)\<rparr>)
          (\<lambda>response.
             if status response = 404 then ret (Some JNull)
             else bindIO (responseJson response) (\<lambda>json. liftE (emailOrNull json))))"

definition getNpmEmail :: "net \<Rightarrow> jsval \<Rightarrow> jsval io" where
  "getNpmEmail net username =
     bindIO (fetch net \<lparr>url = NpmUser username, headers = []\<rparr>)
       (\<lambda>response.
          if status response = 404 then ret (Some JNull)
          else bindIO (responseJson response) (\<lambda>json. liftE (emailOrNull json)))"

section \<open>getRecentActivityEmails\<close>

text \<open>
  The regular expression \<^verbatim>\<open>/"email":"([^"]*)"/gm\<close>. \<open>matchAt s\<close> is the match that starts at
  the first character of \<open>s\<close>: the literal, the longest run of characters other than the
  double quote, and a double quote, which must be there. It yields capture group 1 and
  the length of the whole match.
\<close>

definition dq :: char where
  "dq = CHR 0x22"

definition emailKey :: string where
  "emailKey = dq # ''email'' @ [dq, CHR '':'', dq]"

definition matchAt :: "string \<Rightarrow> (string \<times> nat) option" where
  "matchAt s =
     (if take (length emailKey) s = emailKey
      then (let rest = drop (length emailKey) s;
                cap = takeWhile (\<lambda>c. c \<noteq> dq) rest
            in if length cap < length rest
               then Some (cap, length emailKey + length cap + 1)
               else None)
      else None)"

text \<open>
  \<^verbatim>\<open>RegExp.prototype.exec\<close> with the global flag: the search starts at \<^verbatim>\<open>lastIndex\<close> and
  tries every later position; a match sets \<^verbatim>\<open>lastIndex\<close> to its end, a failure sets it
  to 0. \<open>exec\<close> returns \<^verbatim>\<open>match[1]\<close> (or \<open>None\<close> for \<^verbatim>\<open>null\<close>) and the new \<^verbatim>\<open>lastIndex\<close>.
\<close>

function execFrom :: "string \<Rightarrow> nat \<Rightarrow> (string \<times> nat) option" where
  "execFrom s i =
     (if length s < i then None
      else case matchAt (drop i s) of
             Some (cap, n) \<Rightarrow> Some (cap, i + n)
           | None \<Rightarrow> execFrom s (Suc i))"
  by pat_completeness auto
termination
  by (relation "measure (\<lambda>(s, i). Suc (length s) - i)") auto

declare execFrom.simps [simp del]

definition exec :: "string \<Rightarrow> nat \<Rightarrow> string option \<times> nat" where
  "exec s lastIndex =
     (case execFrom s lastIndex of None \<Rightarrow> (None, 0) | Some (cap, e) \<Rightarrow> (Some cap, e))"

lemma matchAt_length:
  assumes "matchAt t = Some (cap, n)"
  shows "0 < n \<and> n \<le> length t"
proof -
  from assms have t: "take (length emailKey) t = emailKey"
    and c: "length (takeWhile (\<lambda>c. c \<noteq> dq) (drop (length emailKey) t))
            < length (drop (length emailKey) t)"
    and n: "n = length emailKey
              + length (takeWhile (\<lambda>c. c \<noteq> dq) (drop (length emailKey) t)) + 1"
    by (auto simp: matchAt_def Let_def split: if_splits)
  from c n show ?thesis by simp
qed

lemma execFrom_bounds:
  "execFrom s i = Some (cap, e) \<Longrightarrow> i < e \<and> e \<le> length s"
proof (induction s i rule: execFrom.induct)
  case (1 s i)
  note unfold = execFrom.simps [of s i]
  show ?case
  proof (cases "length s < i")
    case True
    with "1.prems" unfold show ?thesis by simp
  next
    case False
    show ?thesis
    proof (cases "matchAt (drop i s)")
      case None
      with False "1.prems" unfold have "execFrom s (Suc i) = Some (cap, e)" by simp
      with "1.IH" [OF False None] show ?thesis by simp
    next
      case (Some p)
      obtain c n where p: "p = (c, n)" by (cases p)
      from Some p matchAt_length have "0 < n \<and> n \<le> length (drop i s)" by blast
      moreover from False Some p "1.prems" unfold have "e = i + n" by simp
      ultimately show ?thesis using False by auto
    qed
  qed
qed

text \<open>
  The loop \<^verbatim>\<open>while (emailRegExp.lastIndex !== 0)\<close>, with \<^verbatim>\<open>lastIndex\<close> and the array of
  emails as its state.
\<close>

function execLoop :: "string \<Rightarrow> nat \<Rightarrow> string list \<Rightarrow> string list" where
  "execLoop s lastIndex recentActivityEmails =
     (if lastIndex \<noteq> 0
      then (case exec s lastIndex of
              (Some m, lastIndex') \<Rightarrow> execLoop s lastIndex' (recentActivityEmails @ [m])
            | (None, lastIndex') \<Rightarrow> execLoop s lastIndex' recentActivityEmails)
      else recentActivityEmails)"
  by pat_completeness auto
termination
  apply (relation "measure (\<lambda>(s, i, acc). if i = 0 then 0 else Suc (Suc (length s) - i))")
    apply simp
   apply (auto simp: exec_def split: option.splits dest!: execFrom_bounds)
  done

declare execLoop.simps [simp del]

definition getRecentActivityEmails :: "net \<Rightarrow> jsval \<Rightarrow> GitHubEmailOpts \<Rightarrow> string list io" where
  "getRecentActivityEmails net username opts =
     bindIO (fetch net \<lparr>url = UserEvents username,
                         headers = getGitHubAPIHeaders (token opts)\<rparr>)
       (\<lambda>response.
          if status response = 404 then ret []
          else
            (let json = body_text response;
                 (initialMatch, lastIndex) = exec json 0;
                 recentActivityEmails = (case initialMatch of Some m \<Rightarrow> [m] | None \<Rightarrow> [])
             in ret (execLoop json lastIndex recentActivityEmails)))"

section \<open>getRepository, getRecentCommitsEmails, githubEmail\<close>

definition getRepository :: "net \<Rightarrow> jsval \<Rightarrow> GitHubEmailOpts \<Rightarrow> jsval io" where
  "getRepository net username opts =
     (if truthy (optStr (repository opts)) then ret (optStr (repository opts))
      else
        bindIO (fetch net \<lparr>url = UserRepos username,
                            headers = getGitHubAPIHeaders (token opts)\<rparr>)
          (\<lambda>response.
             if status response = 404 then ret (Some JNull)
             else
               bindIO (responseJson response)
                 (\<lambda>json. case json of
                            JArr (first # others) \<Rightarrow> liftE (getProp first ''name'')
                          | _ \<Rightarrow> ret (Some JNull))))"

definition getRecentCommitsEmails ::
  "(json \<Rightarrow> time) \<Rightarrow> net \<Rightarrow> jsval \<Rightarrow> GitHubEmailOpts \<Rightarrow> pair list io" where
  "getRecentCommitsEmails parse net username opts =
     bindIO (getRepository net username opts)
       (\<lambda>repository.
          if \<not> truthy repository then ret []
          else
            bindIO (fetch net \<lparr>url = RepoCommits username repository,
                                headers = getGitHubAPIHeaders (token opts)\<rparr>)
              (\<lambda>response.
                 if status response = 404 then ret []
                 else
                   bindIO (responseJson response)
                     (\<lambda>json. case json of
                                JArr (first # others) \<Rightarrow>
                                  bindIO (liftE (commitsEmailsMap parse (first # others)))
                                    (\<lambda>commitsEmailsMap. ret (recentCommitsResult commitsEmailsMap))
                              | _ \<Rightarrow> ret [])))"

definition githubEmail ::
  "(json \<Rightarrow> time) \<Rightarrow> net \<Rightarrow> GitHubEmailOpts \<Rightarrow> GitHubEmailResult io" where
  "githubEmail parse net opts =
     bindIO (getUsername net opts)
       (\<lambda>username.
          if \<not> truthy username then throw UserNotFound
          else
            bindIO (getGitHubEmail net username opts) (\<lambda>github.
            bindIO (getNpmEmail net username) (\<lambda>npm.
            bindIO (getRecentCommitsEmails parse net username opts) (\<lambda>recentCommits.
            bindIO (getRecentActivityEmails net username opts) (\<lambda>recentActivity.
              ret \<lparr>github = github, npm = npm, recentCommits = recentCommits,
                   recentActivity = recentActivity\<rparr>)))))"

section \<open>The requests the program issues\<close>

definition idRequest :: "int \<Rightarrow> GitHubEmailOpts \<Rightarrow> request" where
  "idRequest i opts = \<lparr>url = UserById i, headers = getGitHubAPIHeaders (token opts)\<rparr>"

definition profileRequest :: "jsval \<Rightarrow> GitHubEmailOpts \<Rightarrow> request" where
  "profileRequest username opts =
     \<lparr>url = UserByName username, headers = getGitHubAPIHeaders (token opts)\<rparr>"

definition npmRequest :: "jsval \<Rightarrow> request" where
  "npmRequest username = \<lparr>url = NpmUser username, headers = []\<rparr>"

definition eventsRequest :: "jsval \<Rightarrow> GitHubEmailOpts \<Rightarrow> request" where
  "eventsRequest username opts =
     \<lparr>url = UserEvents username, headers = getGitHubAPIHeaders (token opts)\<rparr>"

definition reposRequest :: "jsval \<Rightarrow> GitHubEmailOpts \<Rightarrow> request" where
  "reposRequest username opts =
     \<lparr>url = UserRepos username, headers = getGitHubAPIHeaders (token opts)\<rparr>"

definition commitsRequest :: "jsval \<Rightarrow> jsval \<Rightarrow> GitHubEmailOpts \<Rightarrow> request" where
  "commitsRequest username repo opts =
     \<lparr>url = RepoCommits username repo, headers = getGitHubAPIHeaders (token opts)\<rparr>"

text \<open>\<^verbatim>\<open>Array.isArray\<close> on a parsed body.\<close>

definition isArray :: "json \<Rightarrow> bool" where
  "isArray j = (case j of JArr xs \<Rightarrow> True | _ \<Rightarrow> False)"

section \<open>What the specification says, as functions\<close>

text \<open>
  Event-stream extraction, in the specification's words: every value under a literal
  \<^verbatim>\<open>"email"\<close> key, in the order of the payload, found by scanning for all non-overlapping
  occurrences. The scan looks for an occurrence at each position in turn and resumes
  after the occurrence it finds.
\<close>

fun allEmailValues :: "string \<Rightarrow> string list" where
  "allEmailValues [] = []"
| "allEmailValues (c # cs) =
     (case matchAt (c # cs) of
        Some (cap, n) \<Rightarrow> cap # allEmailValues (drop (n - 1) cs)
      | None \<Rightarrow> allEmailValues cs)"

text \<open>
  Commit aggregation, in the specification's words. The identities are scanned in the
  order of the payload, the author of a commit before its committer; \<open>scanOrder\<close> is
  that sequence. Two names are the same when the Map takes them for the same key.
  \<open>firstByName earlier ids\<close> keeps an identity of \<open>ids\<close> when its name is present and
  non-empty (truthy) and no identity before it, in \<open>earlier\<close> or in \<open>ids\<close>, recorded or
  not, has the same name.
\<close>

definition identityOf :: "(json \<Rightarrow> time) \<Rightarrow> jsval \<times> jsval \<times> jsval \<Rightarrow> entry" where
  "identityOf parse i =
     (case i of (n, e, d) \<Rightarrow> \<lparr>name = n, email = e, date = newDate parse d\<rparr>)"

definition commitIdentities :: "(json \<Rightarrow> time) \<Rightarrow> json \<Rightarrow> entry list" where
  "commitIdentities parse commitJson =
     (case destructureCommit commitJson of
        Inl e \<Rightarrow> []
      | Inr (a, c) \<Rightarrow> [identityOf parse a, identityOf parse c])"

definition scanOrder :: "(json \<Rightarrow> time) \<Rightarrow> json list \<Rightarrow> entry list" where
  "scanOrder parse commits = concat (map (commitIdentities parse) commits)"

definition sameName :: "jsval \<Rightarrow> jsval \<Rightarrow> bool" where
  "sameName a b = (case (a, b) of (Some x, Some y) \<Rightarrow> sameValueZero x y | _ \<Rightarrow> False)"

fun firstByName :: "entry list \<Rightarrow> entry list \<Rightarrow> entry list" where
  "firstByName earlier [] = []"
| "firstByName earlier (i # rest) =
     (if truthy (name i) \<and> \<not> list_ex (\<lambda>s. sameName (name s) (name i)) earlier
      then [i] else [])
     @ firstByName (earlier @ [i]) rest"

section \<open>When the sub-lookups are answered\<close>







section \<open>Auxiliary definitions of the proofs\<close>

text \<open>One of the two conditional \<^verbatim>\<open>acc.set\<close> of the reduce callback.\<close>

definition addIdentity :: "emap \<Rightarrow> entry \<Rightarrow> emap" where
  "addIdentity acc i =
     (if truthy (name i) \<and> \<not> mapHas acc (the (name i))
      then mapSet acc (the (name i)) i else acc)"

text \<open>
  The Map and the identities scanned so far agree when, for every truthy key, the Map
  has the key exactly when some scanned identity has that name.
\<close>

definition agree :: "emap \<Rightarrow> entry list \<Rightarrow> bool" where
  "agree acc earlier \<longleftrightarrow>
     (\<forall>k. truthy (Some k) \<longrightarrow>
        (mapHas acc k \<longleftrightarrow> (\<exists>s \<in> set earlier. sameName (name s) (Some k))))"

definition descending :: "entry list \<Rightarrow> bool" where
  "descending ys = sorted_wrt (\<lambda>a b. the (date b) \<le> the (date a)) ys"

section \<open>Sample inputs\<close>

text \<open>A network on which every \<^verbatim>\<open>fetch\<close> rejects.\<close>

definition noNet :: net where
  "noNet = (\<lambda>rq. None)"

text \<open>What \<^verbatim>\<open>Date.parse\<close> yields on the three date strings of the sample commits.\<close>

definition sampleParse :: "json \<Rightarrow> time" where
  "sampleParse j =
     (if j = JStr ''2020-01-01T00:00:00Z'' then Some 1577836800000
      else if j = JStr ''2021-01-01T00:00:00Z'' then Some 1609459200000
      else if j = JStr ''2023-01-01T00:00:00Z'' then Some 1672531200000
      else None)"

definition gitUser :: "string \<Rightarrow> string \<Rightarrow> string \<Rightarrow> json" where
  "gitUser n e d = JObj [(''name'', JStr n), (''email'', JStr e), (''date'', JStr d)]"

definition commitOf :: "json \<Rightarrow> json \<Rightarrow> json" where
  "commitOf a c =
     JObj [(''sha'', JStr ''6dcb09b''), (''commit'', JObj [(''author'', a), (''committer'', c)])]"

text \<open>Two commits by the same two names, with different emails in the older one.\<close>

definition dupCommits :: "json list" where
  "dupCommits =
     [commitOf (gitUser ''A'' ''a1'' ''2023-01-01T00:00:00Z'')
               (gitUser ''B'' ''b1'' ''2023-01-01T00:00:00Z''),
      commitOf (gitUser ''A'' ''a2'' ''2021-01-01T00:00:00Z'')
               (gitUser ''B'' ''b2'' ''2021-01-01T00:00:00Z'')]"

text \<open>Three authors dated 2020, 2023 and 2021, in that order.\<close>

definition unorderedCommits :: "json list" where
  "unorderedCommits =
     [commitOf (gitUser ''X'' ''x@x.io'' ''2020-01-01T00:00:00Z'') (JObj []),
      commitOf (gitUser ''Y'' ''y@y.io'' ''2023-01-01T00:00:00Z'') (JObj []),
      commitOf (gitUser ''Z'' ''z@z.io'' ''2021-01-01T00:00:00Z'') (JObj [])]"

text \<open>The same, with 2020 and 2023 at the ends and no \<^verbatim>\<open>date\<close> in the middle one.\<close>

definition undatedCommits :: "json list" where
  "undatedCommits =
     [commitOf (gitUser ''X'' ''x@x.io'' ''2020-01-01T00:00:00Z'') (JObj []),
      commitOf (JObj [(''name'', JStr ''Y''), (''email'', JStr ''y@y.io'')]) (JObj []),
      commitOf (gitUser ''Z'' ''z@z.io'' ''2023-01-01T00:00:00Z'') (JObj [])]"

text \<open>A commit whose \<^verbatim>\<open>commit.author\<close> is \<^verbatim>\<open>null\<close>.\<close>

definition nullAuthorCommits :: "json list" where
  "nullAuthorCommits =
     [commitOf JNull (gitUser ''A'' ''a@a.io'' ''2023-01-01T00:00:00Z'')]"

text \<open>A commit whose author has a name and a date, and no \<^verbatim>\<open>email\<close>.\<close>

definition noEmailCommits :: "json list" where
  "noEmailCommits =
     [commitOf (JObj [(''name'', JStr ''A''), (''date'', JStr ''2023-01-01T00:00:00Z'')])
               (gitUser ''B'' ''b@b.io'' ''2023-01-01T00:00:00Z'')]"

definition jsonResponse :: "nat \<Rightarrow> json \<Rightarrow> response" where
  "jsonResponse st j = \<lparr>status = st, body_text = [], body_json = Some j\<rparr>"

definition notFound :: response where
  "notFound = jsonResponse 404 (JObj [(''message'', JStr ''Not Found'')])"

definition sampleProfile :: json where
  "sampleProfile =
     JObj [(''login'', JStr ''octocat''), (''id'', JNum 583231),
           (''email'', JStr ''octocat@github.com'')]"

definition sampleRepos :: json where
  "sampleRepos =
     JArr [JObj [(''name'', JStr ''hello-world'')], JObj [(''name'', JStr ''spoon-knife'')]]"



text \<open>
  A network that knows the account 583231, \<^verbatim>\<open>octocat\<close>: the profile and the repositories
  are found, the registry answers 404, the commits and the events are the arguments.
\<close>

definition sampleNet :: "json \<Rightarrow> string \<Rightarrow> net" where
  "sampleNet commits events rq =
     (case url rq of
        UserById i \<Rightarrow> if i = 583231 then Some (jsonResponse 200 sampleProfile) else Some notFound
      | UserByName u \<Rightarrow> Some (jsonResponse 200 sampleProfile)
      | NpmUser u \<Rightarrow> Some notFound
      | UserEvents u \<Rightarrow> Some \<lparr>status = 200, body_text = events, body_json = None\<rparr>
      | UserRepos u \<Rightarrow> Some (jsonResponse 200 sampleRepos)
      | RepoCommits u r \<Rightarrow> Some (jsonResponse 200 commits))"




text \<open>A network that answers every request 404.\<close>

definition allNotFound :: net where
  "allNotFound = (\<lambda>rq. Some notFound)"

definition octocat :: jsval where
  "octocat = Some (JStr ''octocat'')"

definition byName :: GitHubEmailOpts where
  "byName = \<lparr>user = Username ''octocat'', token = None, repository = None\<rparr>"

definition byId :: "int \<Rightarrow> GitHubEmailOpts" where
  "byId i = \<lparr>user = Id i, token = Some ''t0k3n'', repository = None\<rparr>"



definition emptyOverride :: GitHubEmailOpts where
  "emptyOverride = \<lparr>user = Username ''octocat'', token = None, repository = Some []\<rparr>"

section \<open>Facts about the combinators\<close>

lemma bindIO_ret [simp]: "bindIO (ret a) f = f a"
  by (simp add: bindIO_def ret_def split: prod.splits)

lemma bindIO_throw [simp]: "bindIO (throw e) f = throw e"
  by (simp add: bindIO_def throw_def)

lemma bindIO_Inl: "bindIO (Inl e, log) f = (Inl e, log)"
  by (simp add: bindIO_def)

lemma bindIO_Inr: "bindIO (Inr a, log) f = (fst (f a), log @ snd (f a))"
  by (simp add: bindIO_def split: prod.splits)

lemma bindIO_fetch:
  "bindIO (fetch net rq) f =
     (case net rq of
        None \<Rightarrow> (Inl NetworkError, [rq])
      | Some r \<Rightarrow> (fst (f r), rq # snd (f r)))"
  by (simp add: bindIO_def fetch_def split: option.splits prod.splits)

lemma bindIO_responseJson:
  "bindIO (responseJson r) f =
     (case body_json r of None \<Rightarrow> (Inl SyntaxError, []) | Some j \<Rightarrow> f j)"
  by (simp add: responseJson_def throw_def bindIO_def ret_def split: option.splits prod.splits)




lemma fst_ret [simp]: "fst (ret a) = Inr a"
  by (simp add: ret_def)

lemma fst_throw [simp]: "fst (throw e) = Inl e"
  by (simp add: throw_def)

lemma fst_liftE [simp]: "fst (liftE r) = r"
  by (simp add: liftE_def)

text \<open>The rules that evaluate the program on the sample inputs.\<close>

lemmas io_eval = bindIO_Inl bindIO_Inr fetch_def ret_def throw_def liftE_def responseJson_def

lemmas net_eval = sampleNet_def jsonResponse_def notFound_def sampleProfile_def sampleRepos_def
  idRequest_def npmRequest_def commitsRequest_def profileRequest_def reposRequest_def
  eventsRequest_def byName_def byId_def octocat_def optStr_def getGitHubAPIHeaders_def

lemmas commits_eval =
  commitsEmailsMap_def commitsReducer_def destructureCommit_def readIdentity_def propOr_def
  bindE_def mapHas_def newDate_def sampleParse_def gitUser_def commitOf_def Let_def

lemmas sort_eval = recentCommitsResult_def sortedEntries_def mapValues_def arraySort_def
  insertPivot_def binarySearch.simps compareDates_def dateGreater_def strip_def

section \<open>The event scan finds every occurrence\<close>

lemma matchAt_Nil [simp]: "matchAt [] = None"
  by (simp add: matchAt_def emailKey_def)











text \<open>
  Order and duplicates on a payload built from any list of values: when neither the
  values nor the text around them contain a double quote, the scan returns the values
  as they were written, one for one.
\<close>

lemma matchAt_not_dq: "c \<noteq> dq \<Longrightarrow> matchAt (c # cs) = None"
  by (auto simp: matchAt_def emailKey_def)

lemma allEmailValues_skip:
  "dq \<notin> set sep \<Longrightarrow> allEmailValues (sep @ rest) = allEmailValues rest"
  by (induction sep) (auto simp: matchAt_not_dq)

lemma takeWhile_value:
  "dq \<notin> set v \<Longrightarrow> takeWhile (\<lambda>c. c \<noteq> dq) (v @ dq # rest) = v"
  by (induction v) auto

lemma matchAt_key:
  "dq \<notin> set v \<Longrightarrow> matchAt (emailKey @ v @ dq # rest) = Some (v, length emailKey + length v + 1)"
  by (simp add: matchAt_def takeWhile_value Let_def)

lemma allEmailValues_key:
  assumes "dq \<notin> set v"
  shows "allEmailValues (emailKey @ v @ dq # rest) = v # allEmailValues rest"
proof -
  obtain c cs where k: "emailKey @ v @ dq # rest = c # cs" and cs: "cs = tl emailKey @ v @ dq # rest"
    by (simp add: emailKey_def)
  have "drop (length emailKey + length v) cs = rest"
    by (simp add: cs emailKey_def)
  with matchAt_key [OF assms, of rest] k show ?thesis
    by (simp del: matchAt_Nil)
qed

lemma allEmailValues_rendered:
  assumes "\<forall>(sep, v) \<in> set items. dq \<notin> set sep \<and> dq \<notin> set v" and "dq \<notin> set tail"
  shows "allEmailValues (concat (map (\<lambda>(sep, v). sep @ emailKey @ v @ [dq]) items) @ tail)
         = map snd items"
  using assms
proof (induction items)
  case Nil
  then show ?case
    using allEmailValues_skip [of tail "[]"] by simp
next
  case (Cons a items)
  obtain sep v where a: "a = (sep, v)" by (cases a)
  with Cons.prems have s: "dq \<notin> set sep" and v: "dq \<notin> set v" by auto
  from Cons have ih: "allEmailValues (concat (map (\<lambda>(sep, v). sep @ emailKey @ v @ [dq]) items) @ tail)
         = map snd items" by simp
  show ?case
    using allEmailValues_skip [OF s] allEmailValues_key [OF v] ih
    by (simp add: a)
qed

section \<open>The reduce keeps the first identity of every name\<close>

lemma commitsReducer_addIdentity:
  "commitsReducer parse acc commitJson =
     bindE (destructureCommit commitJson)
       (\<lambda>(a, c). Inr (addIdentity (addIdentity acc (identityOf parse a)) (identityOf parse c)))"
proof (cases "destructureCommit commitJson")
  case (Inl e)
  then show ?thesis by (simp add: commitsReducer_def bindE_def)
next
  case (Inr p)
  obtain an ae ad cn ce cd where p: "p = ((an, ae, ad), (cn, ce, cd))"
    by (metis prod.exhaust)
  show ?thesis
    unfolding commitsReducer_def Inr p bindE_def
    by (auto simp: addIdentity_def identityOf_def Let_def)
qed

lemma reduceE_foldl:
  "reduceE (commitsReducer parse) commits acc = Inr m \<Longrightarrow>
     m = foldl addIdentity acc (scanOrder parse commits)"
proof (induction commits arbitrary: acc)
  case Nil
  then show ?case by (simp add: scanOrder_def)
next
  case (Cons c cs)
  note red = commitsReducer_addIdentity [of parse acc c]
  from Cons.prems have step: "bindE (commitsReducer parse acc c)
                          (reduceE (commitsReducer parse) cs) = Inr m"
    by simp
  then obtain a b where d: "destructureCommit c = Inr (a, b)"
    unfolding red by (cases "destructureCommit c") (auto simp: bindE_def)
  from step have
    "reduceE (commitsReducer parse) cs
       (addIdentity (addIdentity acc (identityOf parse a)) (identityOf parse b)) = Inr m"
    unfolding red d by (simp add: bindE_def)
  from Cons.IH [OF this] d show ?case
    by (simp add: scanOrder_def commitIdentities_def)
qed

lemma sameValueZero_sym: "sameValueZero a b \<Longrightarrow> sameValueZero b a"
  by (cases a; cases b) auto

lemma sameValueZero_trans: "sameValueZero a b \<Longrightarrow> sameValueZero b c \<Longrightarrow> sameValueZero a c"
  by (cases a; cases b; cases c) auto

lemma sameValueZero_truthy: "sameValueZero a b \<Longrightarrow> truthy (Some a) = truthy (Some b)"
  by (cases a; cases b) auto

lemma mapSet_fresh: "\<not> mapHas m k \<Longrightarrow> mapSet m k v = m @ [(k, v)]"
  by (induction m) (auto simp: mapHas_def)

lemma mapHas_append: "mapHas (m @ [(k, v)]) k' \<longleftrightarrow> mapHas m k' \<or> sameValueZero k k'"
  by (auto simp: mapHas_def list_ex_iff)

lemma addIdentity_append:
  "addIdentity acc i =
     acc @ (if truthy (name i) \<and> \<not> mapHas acc (the (name i)) then [(the (name i), i)] else [])"
  by (simp add: addIdentity_def mapSet_fresh)

lemma agree_step:
  assumes "agree acc earlier"
  shows "agree (addIdentity acc i) (earlier @ [i])"
proof (cases "truthy (name i)")
  case False
  have "\<not> sameName (name i) (Some k)" if "truthy (Some k)" for k
  proof
    assume "sameName (name i) (Some k)"
    then obtain x where "name i = Some x" "sameValueZero x k"
      by (auto simp: sameName_def split: option.splits)
    with sameValueZero_truthy that False show False by auto
  qed
  with assms False show ?thesis
    by (auto simp: agree_def addIdentity_def)
next
  case True
  then obtain x where x: "name i = Some x" by (cases "name i") auto
  show ?thesis
  proof (cases "mapHas acc x")
    case False
    with True x assms show ?thesis
      by (auto simp: agree_def addIdentity_append mapHas_append sameName_def)
  next
    case has: True
    have "mapHas acc k" if "truthy (Some k)" "sameValueZero x k" for k
    proof -
      from has obtain k' v where "(k', v) \<in> set acc" "sameValueZero k' x"
        by (auto simp: mapHas_def list_ex_iff)
      moreover from this(2) that(2) have "sameValueZero k' k"
        by (rule sameValueZero_trans)
      ultimately show ?thesis
        by (force simp: mapHas_def list_ex_iff)
    qed
    with True x has assms show ?thesis
      by (auto simp: agree_def addIdentity_def sameName_def)
  qed
qed

lemma addIdentity_firstByName:
  assumes "agree acc earlier"
  shows "addIdentity acc i =
     acc @ (if truthy (name i) \<and> \<not> list_ex (\<lambda>s. sameName (name s) (name i)) earlier
            then [(the (name i), i)] else [])"
proof (cases "truthy (name i)")
  case False
  then show ?thesis by (simp add: addIdentity_def)
next
  case True
  then obtain x where x: "name i = Some x" by (cases "name i") auto
  with True assms have "mapHas acc x \<longleftrightarrow> (\<exists>s \<in> set earlier. sameName (name s) (Some x))"
    by (simp add: agree_def)
  with True x show ?thesis
    by (simp add: addIdentity_append list_ex_iff)
qed

lemma foldl_addIdentity:
  "agree acc earlier \<Longrightarrow>
     foldl addIdentity acc ids
       = acc @ map (\<lambda>i. (the (name i), i)) (firstByName earlier ids)"
proof (induction ids arbitrary: acc earlier)
  case Nil
  show ?case by simp
next
  case (Cons i ids)
  from Cons.IH [OF agree_step [OF Cons.prems, of i]] addIdentity_firstByName [OF Cons.prems, of i]
  show ?case by simp
qed

lemma agree_empty: "agree [] []"
  by (simp add: agree_def mapHas_def)

lemma commitsEmailsMap_firstByName:
  assumes "commitsEmailsMap parse commits = Inr m"
  shows "m = map (\<lambda>i. (the (name i), i)) (firstByName [] (scanOrder parse commits))"
  using reduceE_foldl [OF assms [unfolded commitsEmailsMap_def]] foldl_addIdentity [OF agree_empty]
  by simp

lemma find_append_cases:
  "find P (xs @ ys) = (case find P xs of None \<Rightarrow> find P ys | Some x \<Rightarrow> Some x)"
  by (induction xs) auto

lemma firstByName_find:
  "e \<in> set (firstByName earlier ids) \<Longrightarrow> name e = Some (JStr s) \<Longrightarrow>
     find (\<lambda>i. name i = Some (JStr s)) (earlier @ ids) = Some e"
proof (induction ids arbitrary: earlier)
  case Nil
  then show ?case by simp
next
  case (Cons i ids)
  show ?case
  proof (cases "e \<in> set (firstByName (earlier @ [i]) ids)")
    case True
    from Cons.IH [OF True Cons.prems(2)] show ?thesis by simp
  next
    case False
    with Cons.prems(1) have ei: "e = i"
      and fresh: "\<not> list_ex (\<lambda>s. sameName (name s) (name i)) earlier"
      by (auto split: if_splits)
    from fresh ei Cons.prems(2) have "\<forall>x \<in> set earlier. name x \<noteq> Some (JStr s)"
      by (auto simp: list_ex_iff sameName_def)
    then have "find (\<lambda>i. name i = Some (JStr s)) earlier = None"
      by (simp add: find_None_iff)
    with ei Cons.prems(2) show ?thesis
      by (simp add: find_append_cases)
  qed
qed

lemma set_firstByName: "e \<in> set (firstByName earlier ids) \<Longrightarrow> e \<in> set ids \<and> truthy (name e)"
  by (induction ids arbitrary: earlier) (auto split: if_splits)

section \<open>The sort on valid dates\<close>

lemma takeRun_split:
  "takeRun cmp d p ys = (r, rest) \<Longrightarrow> ys = r @ rest"
  by (induction ys arbitrary: p r) (auto simp: Let_def split: if_splits prod.splits)

lemma takeRun_chain:
  "takeRun cmp d p ys = (r, rest) \<Longrightarrow>
     successively (\<lambda>a b. if d then cmp b a < 0 else \<not> cmp b a < 0) (p # r)"
proof (induction ys arbitrary: p r rest)
  case Nil
  then show ?case by simp
next
  case (Cons y ys)
  show ?case
  proof (cases "if d then 0 \<le> cmp y p else cmp y p < 0")
    case True
    with Cons.prems have "r = []" by (auto simp: Let_def split: if_splits)
    then show ?thesis by simp
  next
    case False
    obtain r' rest' where t: "takeRun cmp d y ys = (r', rest')"
      by (cases "takeRun cmp d y ys")
    with False Cons.prems have r: "r = y # r'"
      by (auto simp: Let_def split: if_splits)
    from Cons.IH [OF t] False r show ?thesis
      by (auto split: if_splits)
  qed
qed

lemma countAndMakeRun_cases:
  assumes "countAndMakeRun cmp xs = (run, rest)"
  shows "\<exists>pre. xs = pre @ rest
           \<and> ((run = pre \<and> successively (\<lambda>a b. \<not> cmp b a < 0) pre)
              \<or> (run = rev pre \<and> successively (\<lambda>a b. cmp b a < 0) pre))"
proof -
  consider "xs = []" | x where "xs = [x]" | hi lo ys where "xs = hi # lo # ys"
    by (cases xs; cases "tl xs") auto
  then show ?thesis
  proof cases
  case 1
  with assms show ?thesis by auto
next
  case 2
  with assms show ?thesis by auto
next
  case 3
  then have xs: "xs = hi # lo # ys" by simp
  obtain r rest' where t: "takeRun cmp (cmp lo hi < 0) lo ys = (r, rest')"
    by (cases "takeRun cmp (cmp lo hi < 0) lo ys")
  from takeRun_split [OF t] have ys: "ys = r @ rest'" .
  from takeRun_chain [OF t]
  have ch: "successively (\<lambda>a b. if cmp lo hi < 0 then cmp b a < 0 else \<not> cmp b a < 0) (lo # r)" .
  show ?thesis
  proof (cases "cmp lo hi < 0")
    case True
    with assms xs t have "run = rev (hi # lo # r)" "rest = rest'"
      by (simp_all add: Let_def)
    moreover from True ch have "successively (\<lambda>a b. cmp b a < 0) (hi # lo # r)"
      by simp
    ultimately show ?thesis using xs ys by auto
  next
    case False
    with assms xs t have "run = hi # lo # r" "rest = rest'"
      by (simp_all add: Let_def)
    moreover from False ch have "successively (\<lambda>a b. \<not> cmp b a < 0) (hi # lo # r)"
      by simp
    ultimately show ?thesis using xs ys by auto
  qed
qed
qed

lemma mset_insertPivot: "mset (insertPivot cmp work pivot) = add_mset pivot (mset work)"
proof -
  have "mset (take n work @ pivot # drop n work) = add_mset pivot (mset work)" for n
    by (metis append_take_drop_id mset.simps(2) mset_append union_mset_add_mset_right)
  then show ?thesis by (simp add: insertPivot_def Let_def)
qed

lemma mset_foldl_insertPivot:
  "mset (foldl (insertPivot cmp) work rest) = mset work + mset rest"
  by (induction rest arbitrary: work) (auto simp: mset_insertPivot)

lemma mset_arraySort: "mset (arraySort cmp xs) = mset xs"
proof -
  obtain run rest where c: "countAndMakeRun cmp xs = (run, rest)"
    by (cases "countAndMakeRun cmp xs")
  from countAndMakeRun_cases [OF c] have "mset run + mset rest = mset xs"
    by auto
  with c show ?thesis
    by (simp add: arraySort_def mset_foldl_insertPivot)
qed

lemma compareDates_valid:
  "date x = Some a \<Longrightarrow> date y = Some b \<Longrightarrow> compareDates x y < 0 \<longleftrightarrow> b < a"
  by (simp add: compareDates_def dateGreater_def)

lemma compareDates_key:
  "date x \<noteq> None \<Longrightarrow> date y \<noteq> None \<Longrightarrow>
     compareDates x y < 0 \<longleftrightarrow> the (date y) < the (date x)"
  by (auto simp: compareDates_valid)

lemma ascending_run:
  assumes "\<forall>x \<in> set pre. date x \<noteq> None"
    and "successively (\<lambda>a b. \<not> compareDates b a < 0) pre"
  shows "descending pre"
proof -
  from assms(2) have "successively (\<lambda>a b. the (date b) \<le> the (date a)) pre"
    by (rule successively_mono) (use assms(1) in \<open>auto simp: compareDates_key\<close>)
  moreover have "transp (\<lambda>a b :: entry. the (date b) \<le> the (date a))"
    by (auto simp: transp_def)
  ultimately show ?thesis
    by (simp add: descending_def successively_conv_sorted_wrt)
qed

lemma filter_rev_distinct_keys:
  "sorted_wrt (\<lambda>a b. f a \<noteq> f b) xs \<Longrightarrow>
     filter (\<lambda>e. f e = t) (rev xs) = filter (\<lambda>e. f e = t) xs"
proof (induction xs)
  case Nil
  show ?case by simp
next
  case (Cons x xs)
  show ?case
  proof (cases "f x = t")
    case True
    with Cons.prems have "\<forall>y \<in> set xs. f y \<noteq> t" by auto
    then have "filter (\<lambda>e. f e = t) xs = []" by (simp add: filter_empty_conv)
    with True Cons show ?thesis by simp
  next
    case False
    with Cons show ?thesis by simp
  qed
qed

lemma descending_run:
  assumes "\<forall>x \<in> set pre. date x \<noteq> None"
    and "successively (\<lambda>a b. compareDates b a < 0) pre"
  shows "descending (rev pre)"
    and "filter (\<lambda>e. date e = t) (rev pre) = filter (\<lambda>e. date e = t) pre"
proof -
  from assms(2) have "successively (\<lambda>a b. the (date a) < the (date b)) pre"
    by (rule successively_mono) (use assms(1) in \<open>auto simp: compareDates_key\<close>)
  moreover have "transp (\<lambda>a b :: entry. the (date a) < the (date b))"
    by (auto simp: transp_def)
  ultimately have s: "sorted_wrt (\<lambda>a b. the (date a) < the (date b)) pre"
    by (simp add: successively_conv_sorted_wrt)
  then have "sorted_wrt (\<lambda>a b. the (date a) \<le> the (date b)) pre"
    by (rule sorted_wrt_mono_rel [rotated]) auto
  then show "descending (rev pre)"
    by (simp add: descending_def sorted_wrt_rev)
  from s have "sorted_wrt (\<lambda>a b. date a \<noteq> date b) pre"
    by (rule sorted_wrt_mono_rel [rotated]) auto
  then show "filter (\<lambda>e. date e = t) (rev pre) = filter (\<lambda>e. date e = t) pre"
    by (rule filter_rev_distinct_keys)
qed

lemma binarySearch_boundary:
  assumes "descending work" and "\<forall>x \<in> set work. date x \<noteq> None" and "date pivot \<noteq> None"
    and "left \<le> right" and "right \<le> length work"
    and "\<forall>i < left. the (date pivot) \<le> the (date (work ! i))"
    and "\<forall>i. right \<le> i \<and> i < length work \<longrightarrow> the (date (work ! i)) < the (date pivot)"
  shows "binarySearch compareDates pivot work left right \<le> length work
       \<and> (\<forall>i < binarySearch compareDates pivot work left right.
             the (date pivot) \<le> the (date (work ! i)))
       \<and> (\<forall>i. binarySearch compareDates pivot work left right \<le> i \<and> i < length work \<longrightarrow>
             the (date (work ! i)) < the (date pivot))"
  using assms(4-7)
proof (induction "right - left" arbitrary: left right rule: less_induct)
  case less
  note sorted = assms(1) [unfolded descending_def]
  show ?case
  proof (cases "left < right")
    case False
    then have "binarySearch compareDates pivot work left right = left"
      by (subst binarySearch.simps) simp
    with False less.prems show ?thesis by auto
  next
    case True
    let ?mid = "left + (right - left) div 2"
    from True have mid: "left \<le> ?mid" "?mid < right" by auto
    with less.prems have len: "?mid < length work" by simp
    then have vm: "date (work ! ?mid) \<noteq> None" using assms(2) nth_mem by blast
    show ?thesis
    proof (cases "compareDates pivot (work ! ?mid) < 0")
      case lt: True
      with True have eq: "binarySearch compareDates pivot work left right
                          = binarySearch compareDates pivot work left ?mid"
        by (subst binarySearch.simps) (simp add: Let_def)
      from lt vm assms(3) have k: "the (date (work ! ?mid)) < the (date pivot)"
        by (simp add: compareDates_key)
      have up: "\<forall>i. ?mid \<le> i \<and> i < length work \<longrightarrow> the (date (work ! i)) < the (date pivot)"
      proof (intro allI impI)
        fix i assume i: "?mid \<le> i \<and> i < length work"
        show "the (date (work ! i)) < the (date pivot)"
        proof (cases "i = ?mid")
          case True
          with k show ?thesis by simp
        next
          case False
          with i have "?mid < i" by simp
          with sorted i have "the (date (work ! i)) \<le> the (date (work ! ?mid))"
            by (simp add: sorted_wrt_iff_nth_less)
          with k show ?thesis by simp
        qed
      qed
      have "?mid - left < right - left" using True by auto
      from less.hyps [OF this mid(1) _ less.prems(3) up] len eq
      show ?thesis by simp
    next
      case geq: False
      with True have eq: "binarySearch compareDates pivot work left right
                          = binarySearch compareDates pivot work (?mid + 1) right"
        by (subst binarySearch.simps) (simp add: Let_def)
      from geq vm assms(3) have k: "the (date pivot) \<le> the (date (work ! ?mid))"
        by (simp add: compareDates_key)
      have low: "\<forall>i < ?mid + 1. the (date pivot) \<le> the (date (work ! i))"
      proof (intro allI impI)
        fix i assume i: "i < ?mid + 1"
        show "the (date pivot) \<le> the (date (work ! i))"
        proof (cases "i = ?mid")
          case True
          with k show ?thesis by simp
        next
          case False
          with i have "i < ?mid" by simp
          with sorted len have "the (date (work ! ?mid)) \<le> the (date (work ! i))"
            by (simp add: sorted_wrt_iff_nth_less)
          with k show ?thesis by simp
        qed
      qed
      have m: "right - (?mid + 1) < right - left" and le: "?mid + 1 \<le> right"
        using True by auto
      from less.hyps [OF m le less.prems(2) low less.prems(4)] eq
      show ?thesis by simp
    qed
  qed
qed

lemma insertPivot_valid:
  assumes "descending work" and "\<forall>x \<in> set work. date x \<noteq> None" and "date pivot \<noteq> None"
  shows "descending (insertPivot compareDates work pivot)"
    and "filter (\<lambda>e. date e = t) (insertPivot compareDates work pivot)
         = filter (\<lambda>e. date e = t) (work @ [pivot])"
proof -
  define left where "left = binarySearch compareDates pivot work 0 (length work)"
  from binarySearch_boundary [OF assms, of 0 "length work"]
  have le: "left \<le> length work"
    and lo: "\<forall>i < left. the (date pivot) \<le> the (date (work ! i))"
    and hi: "\<forall>i. left \<le> i \<and> i < length work \<longrightarrow> the (date (work ! i)) < the (date pivot)"
    by (simp_all add: left_def)
  have ins: "insertPivot compareDates work pivot = take left work @ pivot # drop left work"
    by (simp add: insertPivot_def left_def Let_def)
  have front: "\<forall>x \<in> set (take left work). the (date pivot) \<le> the (date x)"
    using lo le by (auto simp: in_set_conv_nth)
  have rear: "\<forall>x \<in> set (drop left work). the (date x) < the (date pivot)"
  proof
    fix x assume "x \<in> set (drop left work)"
    then obtain i where "i < length work - left" "x = work ! (left + i)"
      by (auto simp: in_set_conv_nth)
    with hi show "the (date x) < the (date pivot)" by simp
  qed
  from assms(1) have "sorted_wrt (\<lambda>a b. the (date b) \<le> the (date a)) (take left work @ drop left work)"
    by (simp add: descending_def)
  with front rear show "descending (insertPivot compareDates work pivot)"
    unfolding ins descending_def sorted_wrt_append
    by (auto simp: less_imp_le)
  have "filter (\<lambda>e. date e = t) (drop left work) = []" if "date pivot = t"
  proof -
    have "date x \<noteq> t" if "x \<in> set (drop left work)" for x
      using rear that \<open>date pivot = t\<close> by auto
    then show ?thesis by (simp add: filter_empty_conv)
  qed
  moreover have "filter (\<lambda>e. date e = t) work
      = filter (\<lambda>e. date e = t) (take left work) @ filter (\<lambda>e. date e = t) (drop left work)"
    by (metis append_take_drop_id filter_append)
  ultimately show "filter (\<lambda>e. date e = t) (insertPivot compareDates work pivot)
         = filter (\<lambda>e. date e = t) (work @ [pivot])"
    unfolding ins by auto
qed

lemma set_insertPivot: "set (insertPivot cmp work pivot) = insert pivot (set work)"
  using mset_insertPivot [of cmp work pivot] by (metis set_mset_add_mset_insert set_mset_mset)

lemma foldl_insertPivot_valid:
  assumes "descending work" and "\<forall>x \<in> set work. date x \<noteq> None"
    and "\<forall>x \<in> set rest. date x \<noteq> None"
  shows "descending (foldl (insertPivot compareDates) work rest)
       \<and> filter (\<lambda>e. date e = t) (foldl (insertPivot compareDates) work rest)
           = filter (\<lambda>e. date e = t) (work @ rest)"
  using assms
proof (induction rest arbitrary: work)
  case Nil
  then show ?case by simp
next
  case (Cons pivot rest)
  from Cons.prems have p: "date pivot \<noteq> None" by simp
  note step = insertPivot_valid [OF Cons.prems(1,2) p]
  have v: "\<forall>x \<in> set (insertPivot compareDates work pivot). date x \<noteq> None"
    using Cons.prems(2) p by (simp add: set_insertPivot)
  from Cons.prems(3) have r: "\<forall>x \<in> set rest. date x \<noteq> None" by simp
  from Cons.IH [OF step(1) v r] step(2) [of t] show ?case by simp
qed

lemma arraySort_valid:
  assumes "\<forall>x \<in> set xs. date x \<noteq> None"
  shows "sorted_wrt (\<lambda>a b. the (date b) \<le> the (date a)) (arraySort compareDates xs)"
    and "filter (\<lambda>e. date e = t) (arraySort compareDates xs) = filter (\<lambda>e. date e = t) xs"
proof -
  obtain run rest where c: "countAndMakeRun compareDates xs = (run, rest)"
    by (cases "countAndMakeRun compareDates xs")
  from countAndMakeRun_cases [OF c] obtain pre where xs: "xs = pre @ rest"
    and cases: "(run = pre \<and> successively (\<lambda>a b. \<not> compareDates b a < 0) pre)
              \<or> (run = rev pre \<and> successively (\<lambda>a b. compareDates b a < 0) pre)"
    by blast
  from assms xs have vp: "\<forall>x \<in> set pre. date x \<noteq> None" and vr: "\<forall>x \<in> set rest. date x \<noteq> None"
    by auto
  from cases have run: "descending run \<and> set run = set pre
       \<and> filter (\<lambda>e. date e = t) run = filter (\<lambda>e. date e = t) pre"
  proof
    assume "run = pre \<and> successively (\<lambda>a b. \<not> compareDates b a < 0) pre"
    with ascending_run [OF vp] show ?thesis by simp
  next
    assume "run = rev pre \<and> successively (\<lambda>a b. compareDates b a < 0) pre"
    with descending_run(1) [OF vp] descending_run(2) [OF vp, of t] show ?thesis by simp
  qed
  with vp have vrun: "\<forall>x \<in> set run. date x \<noteq> None" by simp
  from run have d: "descending run" by simp
  from foldl_insertPivot_valid [OF d vrun vr, of t] run xs c
  show "sorted_wrt (\<lambda>a b. the (date b) \<le> the (date a)) (arraySort compareDates xs)"
    and "filter (\<lambda>e. date e = t) (arraySort compareDates xs) = filter (\<lambda>e. date e = t) xs"
    by (simp_all add: arraySort_def descending_def)
qed

lemma set_arraySort: "set (arraySort cmp xs) = set xs"
  using mset_arraySort [of cmp xs] by (metis set_mset_mset)

text \<open>
  With an Invalid Date after a descending run, the binary search sends a later element
  past it: dates 5, 6, Invalid, 7 come out as 7, 6, 5, Invalid.
\<close>

lemma arraySort_invalid_date:
  "map date (arraySort compareDates
      [\<lparr>name = None, email = None, date = Some 5\<rparr>,
       \<lparr>name = None, email = None, date = Some 6\<rparr>,
       \<lparr>name = None, email = None, date = None\<rparr>,
       \<lparr>name = None, email = None, date = Some 7\<rparr>])
   = [Some 7, Some 6, Some 5, None]"
  by (simp add: arraySort_def insertPivot_def binarySearch.simps compareDates_def
      dateGreater_def)

section \<open>The aggregation on the sample commits\<close>

lemma dupCommits_map:
  "commitsEmailsMap sampleParse dupCommits =
     Inr [(JStr ''A'', \<lparr>name = Some (JStr ''A''), email = Some (JStr ''a1''),
                         date = Some 1672531200000\<rparr>),
          (JStr ''B'', \<lparr>name = Some (JStr ''B''), email = Some (JStr ''b1''),
                         date = Some 1672531200000\<rparr>)]"
  by (simp add: dupCommits_def commits_eval)

lemma unorderedCommits_map:
  "commitsEmailsMap sampleParse unorderedCommits =
     Inr [(JStr ''X'', \<lparr>name = Some (JStr ''X''), email = Some (JStr ''x@x.io''),
                         date = Some 1577836800000\<rparr>),
          (JStr ''Y'', \<lparr>name = Some (JStr ''Y''), email = Some (JStr ''y@y.io''),
                         date = Some 1672531200000\<rparr>),
          (JStr ''Z'', \<lparr>name = Some (JStr ''Z''), email = Some (JStr ''z@z.io''),
                         date = Some 1609459200000\<rparr>)]"
  by (simp add: unorderedCommits_def commits_eval)

lemma undatedCommits_map:
  "commitsEmailsMap sampleParse undatedCommits =
     Inr [(JStr ''X'', \<lparr>name = Some (JStr ''X''), email = Some (JStr ''x@x.io''),
                         date = Some 1577836800000\<rparr>),
          (JStr ''Y'', \<lparr>name = Some (JStr ''Y''), email = Some (JStr ''y@y.io''),
                         date = None\<rparr>),
          (JStr ''Z'', \<lparr>name = Some (JStr ''Z''), email = Some (JStr ''z@z.io''),
                         date = Some 1672531200000\<rparr>)]"
  by (simp add: undatedCommits_def commits_eval)

lemma nullAuthorCommits_map: "commitsEmailsMap parse nullAuthorCommits = Inl TypeError"
  by (simp add: nullAuthorCommits_def commits_eval)

lemma noEmail_map:
  "commitsEmailsMap sampleParse noEmailCommits =
     Inr [(JStr ''A'', \<lparr>name = Some (JStr ''A''), email = None,
                         date = Some 1672531200000\<rparr>),
          (JStr ''B'', \<lparr>name = Some (JStr ''B''), email = Some (JStr ''b@b.io''),
                         date = Some 1672531200000\<rparr>)]"
  by (simp add: noEmailCommits_def commits_eval)

section \<open>Which errors the lookups raise\<close>
















lemma getRepository_none:
  assumes "\<not> truthy (optStr (repository opts))"
    and "net (reposRequest username opts) = Some response"
    and "status response = 404
         \<or> (\<exists>j. body_json response = Some j \<and> (\<not> isArray j \<or> j = JArr []))"
  shows "getRepository net username opts = (Inr (Some JNull), [reposRequest username opts])"
proof (cases "status response = 404")
  case True
  with assms(1,2) show ?thesis
    by (simp add: getRepository_def reposRequest_def bindIO_fetch ret_def)
next
  case False
  with assms(3) obtain j where j: "body_json response = Some j" "\<not> isArray j \<or> j = JArr []"
    by blast
  from j(2) have "(case j of JArr (first # others) \<Rightarrow> liftE (getProp first ''name'')
                   | _ \<Rightarrow> ret (Some JNull)) = ret (Some JNull)"
    by (auto simp: isArray_def split: json.splits list.splits)
  with False assms(1,2) j(1) show ?thesis
    by (simp add: getRepository_def reposRequest_def bindIO_fetch bindIO_responseJson)
      (simp add: ret_def)
qed

section \<open>When the sub-lookups return\<close>
















section \<open>Commit-history aggregation\<close>

text \<open>
  C1. Whenever the reduce over the commits returns, the values of its Map, in insertion
  order, are the identities of the scan (payload order, author before committer) whose
  name is present and non-empty and is not the name of any earlier identity of the scan;
  each is stored under its name. The output holds exactly these identities. A recorded
  identity whose name is the string \<open>s\<close> has \<open>s\<close> non-empty and is the first identity of
  the scan named \<open>s\<close>: the email kept for a name is that of its earliest occurrence,
  whatever the emails of the later ones.
\<close>

theorem commitsEmailsMap_first_occurrence_wins:
  assumes "commitsEmailsMap parse commits = Inr m"
  shows "mapValues m = firstByName [] (scanOrder parse commits)
       \<and> map fst m = map (\<lambda>i. the (name i)) (mapValues m)
       \<and> mset (recentCommitsResult m)
           = mset (map strip (firstByName [] (scanOrder parse commits)))
       \<and> (\<forall>e \<in> set (mapValues m). \<forall>s. name e = Some (JStr s) \<longrightarrow>
             s \<noteq> [] \<and> find (\<lambda>i. name i = Some (JStr s)) (scanOrder parse commits) = Some e)"
proof -
  let ?ids = "scanOrder parse commits"
  from commitsEmailsMap_firstByName [OF assms]
  have m: "m = map (\<lambda>i. (the (name i), i)) (firstByName [] ?ids)" .
  then have v: "mapValues m = firstByName [] ?ids"
    by (simp add: mapValues_def comp_def)
  from m have k: "map fst m = map (\<lambda>i. the (name i)) (mapValues m)"
    by (simp add: mapValues_def comp_def)
  have p: "mset (recentCommitsResult m) = mset (map strip (firstByName [] ?ids))"
    by (simp add: recentCommitsResult_def sortedEntries_def v mset_arraySort)
  have f: "s \<noteq> [] \<and> find (\<lambda>i. name i = Some (JStr s)) ?ids = Some e"
    if "e \<in> set (mapValues m)" "name e = Some (JStr s)" for e s
  proof -
    from that(1) v have e: "e \<in> set (firstByName [] ?ids)" by simp
    from set_firstByName [OF e] that(2) have "s \<noteq> []" by simp
    moreover from firstByName_find [OF e that(2)]
    have "find (\<lambda>i. name i = Some (JStr s)) ?ids = Some e" by simp
    ultimately show ?thesis ..
  qed
  from v k p f show ?thesis by blast
qed

theorem commitsEmailsMap_first_occurrence_wins_witness:
  "commitsEmailsMap sampleParse dupCommits =
     Inr [(JStr ''A'', \<lparr>name = Some (JStr ''A''), email = Some (JStr ''a1''),
                         date = Some 1672531200000\<rparr>),
          (JStr ''B'', \<lparr>name = Some (JStr ''B''), email = Some (JStr ''b1''),
                         date = Some 1672531200000\<rparr>)]
   \<and> firstByName [] (scanOrder sampleParse dupCommits) =
       [\<lparr>name = Some (JStr ''A''), email = Some (JStr ''a1''), date = Some 1672531200000\<rparr>,
        \<lparr>name = Some (JStr ''B''), email = Some (JStr ''b1''), date = Some 1672531200000\<rparr>]"
  using commitsEmailsMap_first_occurrence_wins [OF dupCommits_map]
  by (simp add: dupCommits_map mapValues_def)

text \<open>
  C2 does not hold of every response. An identity without a \<^verbatim>\<open>date\<close> gets an Invalid
  Date, which the comparator never finds greater or smaller. On the sample where the
  commit in the middle has no date, the output keeps the order of the payload: the
  identity dated 2020 stays in front of the one dated 2023.
\<close>

theorem sorted_by_timestamp_counterexample:
  "map_sum id sortedEntries (commitsEmailsMap sampleParse undatedCommits) =
     Inr [\<lparr>name = Some (JStr ''X''), email = Some (JStr ''x@x.io''), date = Some 1577836800000\<rparr>,
          \<lparr>name = Some (JStr ''Y''), email = Some (JStr ''y@y.io''), date = None\<rparr>,
          \<lparr>name = Some (JStr ''Z''), email = Some (JStr ''z@z.io''), date = Some 1672531200000\<rparr>]
   \<and> map_sum id recentCommitsResult (commitsEmailsMap sampleParse undatedCommits) =
     Inr [\<lparr>pname = Some (JStr ''X''), pemail = Some (JStr ''x@x.io'')\<rparr>,
          \<lparr>pname = Some (JStr ''Y''), pemail = Some (JStr ''y@y.io'')\<rparr>,
          \<lparr>pname = Some (JStr ''Z''), pemail = Some (JStr ''z@z.io'')\<rparr>]"
  by (simp add: undatedCommits_map sort_eval)

text \<open>
  C2, amended. When every identity of the Map has a valid date, the output is the
  sorted identities with the date stripped, where the sorted identities are the
  identities of the Map (the same, as often), in descending order of their timestamps,
  and identities of equal timestamp keep their insertion order.
\<close>

theorem recentCommitsResult_sorted:
  assumes "\<forall>e \<in> set (mapValues m). date e \<noteq> None"
  shows "recentCommitsResult m = map strip (sortedEntries m)
       \<and> mset (sortedEntries m) = mset (mapValues m)
       \<and> sorted_wrt (\<lambda>a b. the (date b) \<le> the (date a)) (sortedEntries m)
       \<and> (\<forall>t. filter (\<lambda>e. date e = t) (sortedEntries m)
               = filter (\<lambda>e. date e = t) (mapValues m))"
  using arraySort_valid [OF assms]
  by (simp add: recentCommitsResult_def sortedEntries_def mset_arraySort)

theorem recentCommitsResult_sorted_witness:
  "commitsEmailsMap sampleParse unorderedCommits =
     Inr [(JStr ''X'', \<lparr>name = Some (JStr ''X''), email = Some (JStr ''x@x.io''),
                         date = Some 1577836800000\<rparr>),
          (JStr ''Y'', \<lparr>name = Some (JStr ''Y''), email = Some (JStr ''y@y.io''),
                         date = Some 1672531200000\<rparr>),
          (JStr ''Z'', \<lparr>name = Some (JStr ''Z''), email = Some (JStr ''z@z.io''),
                         date = Some 1609459200000\<rparr>)]
   \<and> map_sum id recentCommitsResult (commitsEmailsMap sampleParse unorderedCommits) =
     Inr [\<lparr>pname = Some (JStr ''Y''), pemail = Some (JStr ''y@y.io'')\<rparr>,
          \<lparr>pname = Some (JStr ''Z''), pemail = Some (JStr ''z@z.io'')\<rparr>,
          \<lparr>pname = Some (JStr ''X''), pemail = Some (JStr ''x@x.io'')\<rparr>]"
  using recentCommitsResult_sorted
    [of "[(JStr ''X'', \<lparr>name = Some (JStr ''X''), email = Some (JStr ''x@x.io''),
                         date = Some 1577836800000\<rparr>),
          (JStr ''Y'', \<lparr>name = Some (JStr ''Y''), email = Some (JStr ''y@y.io''),
                         date = Some 1672531200000\<rparr>),
          (JStr ''Z'', \<lparr>name = Some (JStr ''Z''), email = Some (JStr ''z@z.io''),
                         date = Some 1609459200000\<rparr>)]"]
  by (simp add: unorderedCommits_map sort_eval)

text \<open>
  C8. The code defaults a missing \<^verbatim>\<open>commit\<close>, \<^verbatim>\<open>author\<close> or \<^verbatim>\<open>committer\<close> to \<^verbatim>\<open>{}\<close>, but a
  default does not replace \<^verbatim>\<open>null\<close>: on a commits array whose entry has
  \<^verbatim>\<open>commit.author\<close> equal to \<^verbatim>\<open>null\<close>, the reduce throws a TypeError, and so does the
  commit-history lookup.
\<close>

theorem null_author_throws:
  "commitsEmailsMap sampleParse nullAuthorCommits = Inl TypeError
   \<and> fst (getRecentCommitsEmails sampleParse (sampleNet (JArr nullAuthorCommits) []) octocat byName)
       = Inl TypeError"
proof
  show "commitsEmailsMap sampleParse nullAuthorCommits = Inl TypeError"
    by (rule nullAuthorCommits_map)
  then show "fst (getRecentCommitsEmails sampleParse (sampleNet (JArr nullAuthorCommits) [])
                    octocat byName) = Inl TypeError"
    by (simp add: getRecentCommitsEmails_def getRepository_def io_eval net_eval
        nullAuthorCommits_def)
qed

text \<open>
  C9. The result type declares every pair as a string name and a string email, and the
  other email lookups turn a missing email into \<^verbatim>\<open>null\<close>; the reduce tests the name only
  and stores the email as it finds it. On a commit whose author has a name and no
  \<^verbatim>\<open>email\<close>, the first pair of the output has an email that is \<^verbatim>\<open>undefined\<close>, not a string.
\<close>

theorem missing_email_is_undefined:
  "map_sum id recentCommitsResult (commitsEmailsMap sampleParse noEmailCommits) =
     Inr [\<lparr>pname = Some (JStr ''A''), pemail = None\<rparr>,
          \<lparr>pname = Some (JStr ''B''), pemail = Some (JStr ''b@b.io'')\<rparr>]
   \<and> fst (getRecentCommitsEmails sampleParse (sampleNet (JArr noEmailCommits) []) octocat byName)
     = Inr [\<lparr>pname = Some (JStr ''A''), pemail = None\<rparr>,
            \<lparr>pname = Some (JStr ''B''), pemail = Some (JStr ''b@b.io'')\<rparr>]"
proof
  show a: "map_sum id recentCommitsResult (commitsEmailsMap sampleParse noEmailCommits) =
     Inr [\<lparr>pname = Some (JStr ''A''), pemail = None\<rparr>,
          \<lparr>pname = Some (JStr ''B''), pemail = Some (JStr ''b@b.io'')\<rparr>]"
    by (simp add: noEmail_map sort_eval)
  from noEmail_map
  show "fst (getRecentCommitsEmails sampleParse (sampleNet (JArr noEmailCommits) []) octocat
               byName)
     = Inr [\<lparr>pname = Some (JStr ''A''), pemail = None\<rparr>,
            \<lparr>pname = Some (JStr ''B''), pemail = Some (JStr ''b@b.io'')\<rparr>]"
    by (simp add: getRecentCommitsEmails_def getRepository_def io_eval net_eval
        noEmailCommits_def sort_eval)
qed

text \<open>
  What does hold of the output, whenever the reduce returns: every element is the name
  and the email of an identity of the response, as they are there; the name is present
  and truthy, the email is whatever the identity's \<^verbatim>\<open>email\<close> field holds.
\<close>

lemma recentCommits_pairs_from_response:
  assumes "commitsEmailsMap parse commits = Inr m"
  shows "\<forall>p \<in> set (recentCommitsResult m).
           truthy (pname p)
         \<and> (\<exists>i \<in> set (scanOrder parse commits). pname p = name i \<and> pemail p = email i)"
proof
  fix p assume "p \<in> set (recentCommitsResult m)"
  then obtain e where e: "e \<in> set (mapValues m)" and p: "p = strip e"
    by (auto simp: recentCommitsResult_def sortedEntries_def set_arraySort)
  from commitsEmailsMap_firstByName [OF assms]
  have "mapValues m = firstByName [] (scanOrder parse commits)"
    by (simp add: mapValues_def comp_def)
  with e set_firstByName have "e \<in> set (scanOrder parse commits) \<and> truthy (name e)"
    by metis
  with p show "truthy (pname p)
         \<and> (\<exists>i \<in> set (scanOrder parse commits). pname p = name i \<and> pemail p = email i)"
    by (auto simp: strip_def)
qed

section \<open>Event-stream extraction\<close>



section \<open>Username resolution\<close>

text \<open>
  C7. For every request that carries a username directly, \<open>getUsername\<close> returns that
  username unchanged, and the list of the requests it issued is empty: no network call.
\<close>

theorem getUsername_passthrough:
  "user opts = Username u \<Longrightarrow> getUsername net opts = (Inr (Some (JStr u)), [])"
  by (simp add: getUsername_def ret_def)

theorem getUsername_passthrough_witness:
  "getUsername noNet \<lparr>user = Username ''jpreynat'', token = None, repository = None\<rparr>
     = (Inr (Some (JStr ''jpreynat'')), [])"
  using getUsername_passthrough
    [of "\<lparr>user = Username ''jpreynat'', token = None, repository = None\<rparr>" "''jpreynat''" noNet]
  by simp

section \<open>Profile-email lookup\<close>

text \<open>
  C6. Without a token (none, or the empty string) the lookup returns \<^verbatim>\<open>null\<close> and issues
  no request. With a token it issues the profile request; a 404 response yields \<^verbatim>\<open>null\<close>,
  any other response with an object body yields the body's \<^verbatim>\<open>email\<close> when that is
  present and non-empty (truthy), else \<^verbatim>\<open>null\<close>.
\<close>

theorem getGitHubEmail_spec:
  "(\<not> truthy (optStr (token opts)) \<longrightarrow>
      getGitHubEmail net username opts = (Inr (Some JNull), []))
   \<and> (truthy (optStr (token opts)) \<and> net (profileRequest username opts) = Some response \<longrightarrow>
        (status response = 404 \<longrightarrow>
           getGitHubEmail net username opts
             = (Inr (Some JNull), [profileRequest username opts]))
      \<and> (status response \<noteq> 404 \<and> body_json response = Some (JObj kvs) \<longrightarrow>
           getGitHubEmail net username opts
             = (Inr (if truthy (map_of kvs ''email'') then map_of kvs ''email'' else Some JNull),
                [profileRequest username opts])))"
  by (simp add: getGitHubEmail_def profileRequest_def bindIO_fetch bindIO_responseJson
      ret_def liftE_def emailOrNull_def bindE_def)

theorem getGitHubEmail_spec_witness:
  "getGitHubEmail noNet octocat byName = (Inr (Some JNull), [])
   \<and> getGitHubEmail (sampleNet (JArr []) []) octocat (byId 583231)
       = (Inr (Some (JStr ''octocat@github.com'')), [profileRequest octocat (byId 583231)])
   \<and> getGitHubEmail (\<lambda>rq. Some notFound) octocat (byId 583231)
       = (Inr (Some JNull), [profileRequest octocat (byId 583231)])"
  using getGitHubEmail_spec [of byName noNet octocat]
    getGitHubEmail_spec [of "byId 583231" "sampleNet (JArr []) []" octocat
      "jsonResponse 200 sampleProfile"
      "[(''login'', JStr ''octocat''), (''id'', JNum 583231),
        (''email'', JStr ''octocat@github.com'')]"]
    getGitHubEmail_spec [of "byId 583231" "\<lambda>rq. Some notFound" octocat notFound]
  by (simp add: net_eval)

section \<open>Repository selection\<close>

text \<open>
  C5 does not hold of the empty override: it is supplied, and it is not what
  \<open>getRepository\<close> returns. The repositories request is issued and the name of the first
  entry is returned.
\<close>

theorem empty_override_not_verbatim:
  "getRepository (sampleNet (JArr []) []) octocat emptyOverride
     = (Inr (Some (JStr ''hello-world'')), [reposRequest octocat emptyOverride])"
  by (simp add: getRepository_def emptyOverride_def io_eval net_eval)

text \<open>
  C5, amended. A non-empty override is returned verbatim, with no request. Without one
  (none, or the empty string), \<open>getRepository\<close> issues the repositories request and,
  when the answer is not a 404 and its body is an array whose first entry is an object,
  returns that entry's \<^verbatim>\<open>name\<close>; when the answer is a 404, or its body is not an array or
  is the empty array, the commit-history lookup returns the empty list, not an error.
\<close>

theorem getRepository_selection:
  "(repository opts = Some r \<and> r \<noteq> [] \<longrightarrow>
      getRepository net username opts = (Inr (Some (JStr r)), []))
   \<and> (\<not> truthy (optStr (repository opts))
        \<and> net (reposRequest username opts) = Some response \<longrightarrow>
        (status response \<noteq> 404 \<and> body_json response = Some (JArr (JObj kvs # others)) \<longrightarrow>
           getRepository net username opts
             = (Inr (map_of kvs ''name''), [reposRequest username opts]))
      \<and> (status response = 404
           \<or> (\<exists>j. body_json response = Some j \<and> (\<not> isArray j \<or> j = JArr [])) \<longrightarrow>
           getRecentCommitsEmails parse net username opts
             = (Inr [], [reposRequest username opts])))"
proof (intro conjI impI)
  assume "repository opts = Some r \<and> r \<noteq> []"
  then show "getRepository net username opts = (Inr (Some (JStr r)), [])"
    by (simp add: getRepository_def optStr_def ret_def)
next
  assume "\<not> truthy (optStr (repository opts)) \<and> net (reposRequest username opts) = Some response"
    and "status response \<noteq> 404 \<and> body_json response = Some (JArr (JObj kvs # others))"
  then show "getRepository net username opts
             = (Inr (map_of kvs ''name''), [reposRequest username opts])"
    by (simp add: getRepository_def reposRequest_def bindIO_fetch bindIO_responseJson
        ret_def liftE_def)
next
  assume a: "\<not> truthy (optStr (repository opts)) \<and> net (reposRequest username opts) = Some response"
    and b: "status response = 404
           \<or> (\<exists>j. body_json response = Some j \<and> (\<not> isArray j \<or> j = JArr []))"
  from a b have "getRepository net username opts
                 = (Inr (Some JNull), [reposRequest username opts])"
    by (intro getRepository_none) auto
  then show "getRecentCommitsEmails parse net username opts
             = (Inr [], [reposRequest username opts])"
    by (simp add: getRecentCommitsEmails_def bindIO_def ret_def)
qed

theorem getRepository_selection_witness:
  "getRepository noNet octocat (byName\<lparr>repository := Some ''github-email-js''\<rparr>)
     = (Inr (Some (JStr ''github-email-js'')), [])
   \<and> getRepository (sampleNet (JArr []) []) octocat byName
     = (Inr (Some (JStr ''hello-world'')), [reposRequest octocat byName])
   \<and> getRecentCommitsEmails sampleParse (\<lambda>rq. Some notFound) octocat byName
     = (Inr [], [reposRequest octocat byName])"
  using getRepository_selection
      [of "byName\<lparr>repository := Some ''github-email-js''\<rparr>" "''github-email-js''" noNet octocat]
    getRepository_selection
      [of byName _ "sampleNet (JArr []) []" octocat "jsonResponse 200 sampleRepos"
          "[(''name'', JStr ''hello-world'')]" "[JObj [(''name'', JStr ''spoon-knife'')]]"]
    getRepository_selection
      [of byName _ "\<lambda>rq. Some notFound" octocat notFound _ _ sampleParse]
  by (simp add: net_eval)

text \<open>
  C10. When the repository override is the empty string, \<open>getRepository\<close> does what it
  does with no override at all: it issues the request for the owned repositories and
  selects from the answer. When the answer is an array whose first entry is an object,
  the result is that entry's \<^verbatim>\<open>name\<close>, not the empty string that was supplied; when the
  answer is a 404, not an array or the empty array, the result is \<^verbatim>\<open>null\<close>.
\<close>

theorem getRepository_empty_override:
  "repository opts = Some [] \<Longrightarrow>
     getRepository net username opts = getRepository net username (opts\<lparr>repository := None\<rparr>)
   \<and> snd (getRepository net username opts) = [reposRequest username opts]
   \<and> (net (reposRequest username opts) = None \<longrightarrow>
        fst (getRepository net username opts) = Inl NetworkError)
   \<and> (net (reposRequest username opts) = Some response \<and> status response \<noteq> 404
        \<and> body_json response = Some (JArr (JObj kvs # others)) \<longrightarrow>
        fst (getRepository net username opts) = Inr (map_of kvs ''name''))
   \<and> (net (reposRequest username opts) = Some response
        \<and> (status response = 404
            \<or> (\<exists>j. body_json response = Some j \<and> (\<not> isArray j \<or> j = JArr []))) \<longrightarrow>
        fst (getRepository net username opts) = Inr (Some JNull))"
proof (intro conjI impI)
  assume e: "repository opts = Some []"
  then have f: "\<not> truthy (optStr (repository opts))" by (simp add: optStr_def)
  from e show "getRepository net username opts
                 = getRepository net username (opts\<lparr>repository := None\<rparr>)"
    by (simp add: getRepository_def optStr_def)
  from f show "snd (getRepository net username opts) = [reposRequest username opts]"
    by (auto simp: getRepository_def reposRequest_def bindIO_fetch bindIO_responseJson
        ret_def liftE_def split: option.splits json.splits list.splits)
  {
    assume "net (reposRequest username opts) = None"
    with f show "fst (getRepository net username opts) = Inl NetworkError"
      by (simp add: getRepository_def reposRequest_def bindIO_fetch)
  }
  {
    assume "net (reposRequest username opts) = Some response \<and> status response \<noteq> 404
        \<and> body_json response = Some (JArr (JObj kvs # others))"
    with f show "fst (getRepository net username opts) = Inr (map_of kvs ''name'')"
      by (simp add: getRepository_def reposRequest_def bindIO_fetch bindIO_responseJson liftE_def)
  }
  {
    assume a: "net (reposRequest username opts) = Some response
        \<and> (status response = 404
            \<or> (\<exists>j. body_json response = Some j \<and> (\<not> isArray j \<or> j = JArr [])))"
    then have "getRepository net username opts = (Inr (Some JNull), [reposRequest username opts])"
      using f by (intro getRepository_none [of opts net username response]) auto
    then show "fst (getRepository net username opts) = Inr (Some JNull)" by simp
  }
qed

theorem getRepository_empty_override_witness:
  "getRepository (sampleNet (JArr []) []) octocat emptyOverride
     = (Inr (Some (JStr ''hello-world'')), [reposRequest octocat emptyOverride])
   \<and> getRepository (sampleNet (JArr []) []) octocat (emptyOverride\<lparr>repository := None\<rparr>)
     = (Inr (Some (JStr ''hello-world'')), [reposRequest octocat emptyOverride])
   \<and> getRepository allNotFound octocat emptyOverride
     = (Inr (Some JNull), [reposRequest octocat emptyOverride])"
proof -
  have e: "repository emptyOverride = Some []" by (simp add: emptyOverride_def)
  have n: "sampleNet (JArr []) [] (reposRequest octocat emptyOverride)
           = Some (jsonResponse 200 sampleRepos)"
    by (simp add: sampleNet_def reposRequest_def)
  note t = getRepository_empty_override
    [OF e, of "sampleNet (JArr []) []" octocat "jsonResponse 200 sampleRepos"
        "[(''name'', JStr ''hello-world'')]" "[JObj [(''name'', JStr ''spoon-knife'')]]"]
  note eq = t [THEN conjunct1]
  note lg = t [THEN conjunct2, THEN conjunct1]
  note sel = t [THEN conjunct2, THEN conjunct2, THEN conjunct2, THEN conjunct1]
  from sel n have 1: "fst (getRepository (sampleNet (JArr []) []) octocat emptyOverride)
                    = Inr (Some (JStr ''hello-world''))"
    by (simp add: jsonResponse_def sampleRepos_def)
  note 2 = lg
  note 3 = eq
  note t' = getRepository_empty_override
    [OF e, of allNotFound octocat notFound]
  note lg' = t' [THEN conjunct2, THEN conjunct1]
  note none = t' [THEN conjunct2, THEN conjunct2, THEN conjunct2, THEN conjunct2]
  from none have 4: "fst (getRepository allNotFound octocat emptyOverride) = Inr (Some JNull)"
    by (simp add: allNotFound_def notFound_def jsonResponse_def)
  note 5 = lg'
  from 1 2 have a: "getRepository (sampleNet (JArr []) []) octocat emptyOverride
     = (Inr (Some (JStr ''hello-world'')), [reposRequest octocat emptyOverride])"
    by (simp add: prod_eq_iff)
  from 4 5 have c: "getRepository allNotFound octocat emptyOverride
     = (Inr (Some JNull), [reposRequest octocat emptyOverride])"
    by (simp add: prod_eq_iff)
  from a 3 have b: "getRepository (sampleNet (JArr []) []) octocat
                      (emptyOverride\<lparr>repository := None\<rparr>)
     = (Inr (Some (JStr ''hello-world'')), [reposRequest octocat emptyOverride])"
    by (simp only:)
  from a b c show ?thesis by (intro conjI)
qed

section \<open>The whole call\<close>


text \<open>A username-based request with the empty username fails in the same way.\<close>

lemma githubEmail_empty_username:
  "user opts = Username [] \<Longrightarrow> githubEmail parse net opts = (Inl UserNotFound, [])"
  by (simp add: githubEmail_def getUsername_def throw_def)





end
